theory Spec2Isabelle
  imports Main
begin

section \<open>The markdown filters of IPython.nbconvert: splitting markdown from embedded HTML\<close>

text \<open>
  The development embeds \<^verbatim>\<open>IPython/nbconvert/filters/markdown.py\<close>: the class
  \<^verbatim>\<open>MarkdownSplitParser\<close> with its four overridden handlers, \<^verbatim>\<open>get_offset\<close>,
  \<^verbatim>\<open>feed\<close> and the function \<^verbatim>\<open>extended_markdown2latex\<close>.

  The tokenizer is Python's \<^verbatim>\<open>HTMLParser\<close>, which the class inherits from and which is
  not part of the repository. It is taken as a parameter: a run of \<^verbatim>\<open>HTMLParser.feed\<close> is
  the list of handler calls it makes, each with the value \<^verbatim>\<open>getpos()\<close> has during that call
  (the line, counted from 1, and the column of the first character of the token).
  The converters \<^verbatim>\<open>markdown2latex\<close> and \<^verbatim>\<open>html2latex\<close> run pandoc; they are parameters
  too.
\<close>

subsection \<open>Python values\<close>

text \<open>
  \<^verbatim>\<open>IndexError\<close> and \<^verbatim>\<open>TypeError\<close> are the exceptions the list operations of the module
  can raise. \<^verbatim>\<open>MalformedMarkupError\<close> is the error the specification names; no
  statement of the module raises it.
\<close>

datatype error = IndexError | TypeError | MalformedMarkupError

text \<open>
  An entry of \<^verbatim>\<open>splitlist\<close> is a Python list that starts as \<^verbatim>\<open>[kind, pos]\<close> and grows by
  \<^verbatim>\<open>append\<close>: its elements are strings and integers.
\<close>

datatype field = S string | I nat

type_synonym span = "field list"

text \<open>Python indexing \<^verbatim>\<open>xs[i]\<close>: a negative index counts from the end.\<close>

definition norm_index :: "nat \<Rightarrow> int \<Rightarrow> error + nat" where
  "norm_index n i =
     (let j = (if i < 0 then int n + i else i)
      in if 0 \<le> j \<and> j < int n then Inr (nat j) else Inl IndexError)"

definition getitem :: "'a list \<Rightarrow> int \<Rightarrow> error + 'a" where
  "getitem xs i = (case norm_index (length xs) i of Inl e \<Rightarrow> Inl e | Inr k \<Rightarrow> Inr (xs ! k))"

text \<open>\<^verbatim>\<open>xss[i].append(x)\<close>: the inner list at index \<open>i\<close> grows in place.\<close>

definition append_at :: "'a list list \<Rightarrow> int \<Rightarrow> 'a \<Rightarrow> error + 'a list list" where
  "append_at xss i x =
     (case norm_index (length xss) i of
        Inl e \<Rightarrow> Inl e
      | Inr k \<Rightarrow> Inr (xss[k := xss ! k @ [x]]))"

text \<open>\<^verbatim>\<open>xs.pop()\<close> and \<^verbatim>\<open>xs.pop(i)\<close>, keeping the list that remains.\<close>

definition pop_last :: "'a list \<Rightarrow> error + 'a list" where
  "pop_last xs = (if xs = [] then Inl IndexError else Inr (butlast xs))"

definition pop_at :: "'a list \<Rightarrow> int \<Rightarrow> error + 'a list" where
  "pop_at xs i =
     (case norm_index (length xs) i of
        Inl e \<Rightarrow> Inl e
      | Inr k \<Rightarrow> Inr (take k xs @ drop (Suc k) xs))"

text \<open>\<^verbatim>\<open>s.find(c, start)\<close>: the least index from \<open>start\<close> on that holds \<open>c\<close>, or \<open>-1\<close>.\<close>

definition find_char :: "string \<Rightarrow> char \<Rightarrow> nat \<Rightarrow> int" where
  "find_char s c start =
     (case List.find (\<lambda>k. s ! k = c) [start ..< length s] of
        None \<Rightarrow> - 1
      | Some k \<Rightarrow> int k)"

text \<open>\<^verbatim>\<open>s[a:b]\<close>; both bounds are read from a span, so either may be a string.\<close>

fun slice :: "string \<Rightarrow> field \<Rightarrow> field \<Rightarrow> error + string" where
  "slice s (I a) (I b) = Inr (take (b - a) (drop a s))"
| "slice s _ _ = Inl TypeError"

subsection \<open>The parser object\<close>

text \<open>
  \<^verbatim>\<open>opentags\<close> and \<^verbatim>\<open>splitlist\<close> are lists bound in the class body and only ever mutated
  in place, so every instance works on the same two lists. \<^verbatim>\<open>setag\<close> and \<^verbatim>\<open>datag\<close> are
  assigned through \<^verbatim>\<open>self\<close>, which gives each instance its own after the first write;
  \<^verbatim>\<open>data\<close> is set by \<^verbatim>\<open>feed\<close>.
\<close>

record parser =
  opentags :: "string list"
  splitlist :: "span list"
  setag :: bool
  datag :: bool
  data :: string

text \<open>The two class-level lists, as they stand between calls.\<close>

type_synonym class_state = "string list \<times> span list"

definition class_initial :: class_state where
  "class_initial = ([], [])"

text \<open>\<^verbatim>\<open>MarkdownSplitParser()\<close>: the flags read \<^verbatim>\<open>False\<close> from the class.\<close>

definition MarkdownSplitParser :: "class_state \<Rightarrow> parser" where
  "MarkdownSplitParser c =
     \<lparr>opentags = fst c, splitlist = snd c, setag = False, datag = False, data = []\<rparr>"

definition class_of :: "parser \<Rightarrow> class_state" where
  "class_of self = (opentags self, splitlist self)"

subsection \<open>Tokenizer events\<close>

type_synonym attrs = "(string \<times> string option) list"

text \<open>
  \<open>Other\<close> stands for the callbacks the class does not override (comments, entity and
  character references, declarations, processing instructions); in \<^verbatim>\<open>HTMLParser\<close> they
  do nothing.
\<close>

datatype event =
    StartTag string attrs
  | EndTag string
  | StartEndTag string attrs
  | Data string
  | Other

type_synonym position = "nat \<times> nat"

type_synonym tokens = "(event \<times> position) list"

subsection \<open>The handlers\<close>

definition get_offset :: "parser \<Rightarrow> position \<Rightarrow> nat" where
  "get_offset self getpos =
     (let lin = fst getpos; offset = snd getpos;
          pos = ((\<lambda>pos. nat (find_char (data self) (CHR 0x0A) pos + 1)) ^^ (lin - 1)) 0
      in pos + offset)"

definition handle_starttag :: "parser \<Rightarrow> position \<Rightarrow> string \<Rightarrow> attrs \<Rightarrow> error + parser" where
  "handle_starttag self getpos tag ats =
     (if tag = ''img'' then Inr self
      else if length (opentags self) = 0 then
        (let pos = get_offset self getpos in
         if datag self \<or> setag self then
           (case append_at (splitlist self) (- 1) (I pos) of
              Inl e \<Rightarrow> Inl e
            | Inr sl \<Rightarrow>
                Inr (self\<lparr>splitlist := sl @ [[S ''html'', I pos]],
                          datag := False, setag := False,
                          opentags := opentags self @ [tag]\<rparr>))
         else
           Inr (self\<lparr>splitlist := splitlist self @ [[S ''html'', I pos]],
                     opentags := opentags self @ [tag]\<rparr>))
      else Inr (self\<lparr>opentags := opentags self @ [tag]\<rparr>))"

definition handle_endtag :: "parser \<Rightarrow> position \<Rightarrow> string \<Rightarrow> error + parser" where
  "handle_endtag self getpos tag =
     (case pop_last (opentags self) of
        Inl e \<Rightarrow> Inl e
      | Inr ot \<Rightarrow>
          if length ot = 0 then
            (let pos = get_offset self getpos in
             case append_at (splitlist self) (- 1) (I (pos + length tag + 3)) of
               Inl e \<Rightarrow> Inl e
             | Inr sl \<Rightarrow> Inr (self\<lparr>opentags := ot, splitlist := sl\<rparr>))
          else Inr (self\<lparr>opentags := ot\<rparr>))"

definition handle_startendtag :: "parser \<Rightarrow> position \<Rightarrow> string \<Rightarrow> attrs \<Rightarrow> error + parser" where
  "handle_startendtag self getpos tag ats =
     (if length (opentags self) = 0 then
        (let pos = get_offset self getpos in
         if datag self then
           (case append_at (splitlist self) (- 1) (I pos) of
              Inl e \<Rightarrow> Inl e
            | Inr sl \<Rightarrow>
                Inr (self\<lparr>splitlist := sl @ [[S ''html'', I pos]],
                          datag := False, setag := True\<rparr>))
         else
           Inr (self\<lparr>splitlist := splitlist self @ [[S ''html'', I pos]], setag := True\<rparr>))
      else Inr self)"

definition handle_data :: "parser \<Rightarrow> position \<Rightarrow> string \<Rightarrow> error + parser" where
  "handle_data self getpos d =
     (if length (opentags self) = 0 \<and> \<not> datag self then
        (let pos = get_offset self getpos in
         if setag self then
           (case append_at (splitlist self) (- 1) (I pos) of
              Inl e \<Rightarrow> Inl e
            | Inr sl \<Rightarrow>
                Inr (self\<lparr>splitlist := sl @ [[S ''markdown'', I pos]],
                          setag := False, datag := True\<rparr>))
         else
           Inr (self\<lparr>splitlist := splitlist self @ [[S ''markdown'', I pos]], datag := True\<rparr>))
      else Inr self)"

text \<open>One callback of the tokenizer, and \<^verbatim>\<open>HTMLParser.feed\<close> as the run of its callbacks.\<close>

fun handle :: "parser \<Rightarrow> event \<times> position \<Rightarrow> error + parser" where
  "handle self (StartTag tag ats, getpos) = handle_starttag self getpos tag ats"
| "handle self (EndTag tag, getpos) = handle_endtag self getpos tag"
| "handle self (StartEndTag tag ats, getpos) = handle_startendtag self getpos tag ats"
| "handle self (Data d, getpos) = handle_data self getpos d"
| "handle self (Other, getpos) = Inr self"

fun HTMLParser_feed :: "parser \<Rightarrow> tokens \<Rightarrow> error + parser" where
  "HTMLParser_feed self [] = Inr self"
| "HTMLParser_feed self (ev # evs) =
     (case handle self ev of Inl e \<Rightarrow> Inl e | Inr self' \<Rightarrow> HTMLParser_feed self' evs)"

subsection \<open>feed\<close>

text \<open>
  One pass of the body of \<^verbatim>\<open>for i, li in enumerate(self.splitlist)\<close>. The text is
  appended to the entry at \<open>j = i - num_pop\<close>; \<open>li\<close> is the entry the list iterator found at
  index \<open>i\<close>, read after the append since both may be the same list object.
\<close>

definition loop_body :: "string \<Rightarrow> span list \<Rightarrow> nat \<Rightarrow> nat \<Rightarrow> error + span list \<times> nat" where
  "loop_body d sl i num_pop =
     (let j = int i - int num_pop in
      case getitem sl j of Inl e \<Rightarrow> Inl e | Inr sp \<Rightarrow>
      case getitem sp 1 of Inl e \<Rightarrow> Inl e | Inr a \<Rightarrow>
      case getitem sp 2 of Inl e \<Rightarrow> Inl e | Inr b \<Rightarrow>
      case slice d a b of Inl e \<Rightarrow> Inl e | Inr txt \<Rightarrow>
      case append_at sl j (S txt) of Inl e \<Rightarrow> Inl e | Inr sl' \<Rightarrow>
      let li = sl' ! i in
      case getitem li (- 3) of Inl e \<Rightarrow> Inl e | Inr x \<Rightarrow>
      case getitem li (- 2) of Inl e \<Rightarrow> Inl e | Inr y \<Rightarrow>
      if x = y then
        (case pop_at sl' (int i) of Inl e \<Rightarrow> Inl e | Inr sl'' \<Rightarrow> Inr (sl'', num_pop + 1))
      else Inr (sl', num_pop))"

text \<open>
  The loop: the list iterator stops as soon as its index reaches the current length of
  the list, which the body may have shortened.
\<close>

function loop :: "string \<Rightarrow> span list \<Rightarrow> nat \<Rightarrow> nat \<Rightarrow> error + span list" where
  "loop d sl i num_pop =
     (if length sl \<le> i then Inr sl
      else case loop_body d sl i num_pop of
             Inl e \<Rightarrow> Inl e
           | Inr (sl', np) \<Rightarrow> loop d sl' (i + 1) np)"
  by pat_completeness auto
termination
proof (relation "measure (\<lambda>(d, sl, i, num_pop). length sl - i)")
  show "wf (measure (\<lambda>(d, sl, i, num_pop). length sl - i))" by simp
next
  fix d :: string and sl :: "span list" and i num_pop :: nat and x2 x y
  assume more: "\<not> length sl \<le> i" and body: "loop_body d sl i num_pop = Inr x2"
    and pair: "(x, y) = x2"
  from body pair have "loop_body d sl i num_pop = Inr (x, y)" by simp
  then have "length x \<le> length sl"
    by (auto simp: loop_body_def append_at_def pop_at_def norm_index_def Let_def
             split: sum.splits if_splits)
  with more show "((d, x, i + 1, y), d, sl, i, num_pop) \<in> measure (\<lambda>(d, sl, i, num_pop). length sl - i)"
    by simp
qed

declare loop.simps [simp del]

definition feed :: "parser \<Rightarrow> string \<Rightarrow> tokens \<Rightarrow> error + parser" where
  "feed self d evs =
     (case HTMLParser_feed (self\<lparr>data := d\<rparr>) evs of
        Inl e \<Rightarrow> Inl e
      | Inr self1 \<Rightarrow>
          case getitem (splitlist self1) (- 1) of
            Inl e \<Rightarrow> Inl e
          | Inr lst \<Rightarrow>
              case (if length lst = 2
                    then append_at (splitlist self1) (- 1) (I (length (data self1)))
                    else Inr (splitlist self1)) of
                Inl e \<Rightarrow> Inl e
              | Inr sl \<Rightarrow>
                  case loop (data self1) sl 0 0 of
                    Inl e \<Rightarrow> Inl e
                  | Inr sl' \<Rightarrow> Inr (self1\<lparr>splitlist := sl'\<rparr>))"

subsection \<open>extended\_markdown2latex\<close>

text \<open>
  The body of \<^verbatim>\<open>for substring in parser.splitlist\<close>, with \<^verbatim>\<open>outtext\<close> as accumulator.
  The converters take a string; handing them the integer that an entry may hold at
  index 3 is a TypeError.
\<close>

fun as_text :: "field \<Rightarrow> error + string" where
  "as_text (S s) = Inr s"
| "as_text (I n) = Inl TypeError"

fun combine :: "(string \<Rightarrow> string) \<Rightarrow> (string \<Rightarrow> string) \<Rightarrow> span list \<Rightarrow> string \<Rightarrow> error + string" where
  "combine markdown2latex html2latex [] outtext = Inr outtext"
| "combine markdown2latex html2latex (substring # rest) outtext =
     (case getitem substring 0 of
        Inl e \<Rightarrow> Inl e
      | Inr kind \<Rightarrow>
          if kind = S ''markdown'' then
            (case getitem substring 3 of Inl e \<Rightarrow> Inl e | Inr f \<Rightarrow>
             case as_text f of Inl e \<Rightarrow> Inl e | Inr t \<Rightarrow>
               combine markdown2latex html2latex rest (outtext @ markdown2latex t))
          else if kind = S ''html'' then
            (case getitem substring 3 of Inl e \<Rightarrow> Inl e | Inr f \<Rightarrow>
             case as_text f of Inl e \<Rightarrow> Inl e | Inr t \<Rightarrow>
               combine markdown2latex html2latex rest (outtext @ html2latex t))
          else combine markdown2latex html2latex rest outtext)"

text \<open>
  The function returns the text; the class-level lists are returned beside it, since
  the next call starts from them.
\<close>

definition extended_markdown2latex ::
  "(string \<Rightarrow> string) \<Rightarrow> (string \<Rightarrow> string) \<Rightarrow> class_state \<Rightarrow> string \<Rightarrow> tokens
     \<Rightarrow> error + string \<times> class_state" where
  "extended_markdown2latex markdown2latex html2latex c source evs =
     (case feed (MarkdownSplitParser c) source evs of
        Inl e \<Rightarrow> Inl e
      | Inr parser \<Rightarrow>
          case combine markdown2latex html2latex (splitlist parser) [] of
            Inl e \<Rightarrow> Inl e
          | Inr outtext \<Rightarrow> Inr (outtext, class_of parser))"

text \<open>The span list of one call in a new interpreter, where both class-level lists are empty.\<close>

definition split_fresh :: "string \<Rightarrow> tokens \<Rightarrow> error + span list" where
  "split_fresh source evs =
     (case feed (MarkdownSplitParser class_initial) source evs of
        Inl e \<Rightarrow> Inl e
      | Inr parser \<Rightarrow> Inr (splitlist parser))"

subsection \<open>What the tokenizer reports on the example strings\<close>

text \<open>
  The handler calls \<^verbatim>\<open>HTMLParser.feed\<close> makes on three strings of one line each:
  \<^verbatim>\<open>before<div>inside</div>after\<close>, \<^verbatim>\<open>a<br/>b\<close> and \<^verbatim>\<open><div><span>a</span></div>\<close>.
  Each token is reported with the column of its first character.
\<close>

definition tokens_mixed :: tokens where
  "tokens_mixed =
     [(Data ''before'', (1, 0)), (StartTag ''div'' [], (1, 6)), (Data ''inside'', (1, 11)),
      (EndTag ''div'', (1, 17)), (Data ''after'', (1, 23))]"

definition tokens_selfclosing :: tokens where
  "tokens_selfclosing =
     [(Data ''a'', (1, 0)), (StartEndTag ''br'' [], (1, 1)), (Data ''b'', (1, 6))]"


text \<open>
  The calls on \<^verbatim>\<open>x<img>y<p>z</p>\<close>, where an \<^verbatim>\<open>img\<close> start tag stands inside a markdown
  run.
\<close>

definition tokens_inline_img :: tokens where
  "tokens_inline_img =
     [(Data ''x'', (1, 0)), (StartTag ''img'' [], (1, 1)), (Data ''y'', (1, 6)),
      (StartTag ''p'' [], (1, 7)), (Data ''z'', (1, 10)), (EndTag ''p'', (1, 11))]"


subsection \<open>The dispatch as the specification words it\<close>

text \<open>
  An entry is a span in the sense of the data model when it has a kind and, if the kind
  is one of the two the dispatcher converts, a text at index 3.
\<close>

definition carries_text :: "span \<Rightarrow> bool" where
  "carries_text sp =
     (case getitem sp 0 of
        Inl e \<Rightarrow> False
      | Inr kind \<Rightarrow>
          if kind = S ''markdown'' \<or> kind = S ''html''
          then (case getitem sp 3 of Inr (S t) \<Rightarrow> True | _ \<Rightarrow> False)
          else True)"

text \<open>
  The conversion result of one span: the markdown converter on a markdown span, the html
  converter on an html span, nothing for any other kind.
\<close>

definition span_conversion :: "(string \<Rightarrow> string) \<Rightarrow> (string \<Rightarrow> string) \<Rightarrow> span \<Rightarrow> string" where
  "span_conversion markdown2latex html2latex sp =
     (case (getitem sp 0, getitem sp 3) of
        (Inr (S kind), Inr (S t)) \<Rightarrow>
          if kind = ''markdown'' then markdown2latex t
          else if kind = ''html'' then html2latex t
          else []
      | _ \<Rightarrow> [])"

subsection \<open>What is assumed of the tokenizer\<close>

text \<open>The offset \<^verbatim>\<open>get_offset\<close> computes for a position of the tokenizer in the text \<open>d\<close>.\<close>

definition absolute :: "string \<Rightarrow> position \<Rightarrow> nat" where
  "absolute d gp = get_offset (MarkdownSplitParser class_initial\<lparr>data := d\<rparr>) gp"

text \<open>
  Tokens are reported in the order of the text, do not overlap and lie inside it. A token
  has at least one character, a closing tag at least those of \<^verbatim>\<open></name>\<close>: \<open>after_token\<close>
  is the least offset at which the token reported at \<open>pos\<close> can end, and \<open>in_order d lo\<close>
  says that each token starts at or after that offset of the token before it (\<open>lo\<close> for
  the first) and that the last one ends within \<open>d\<close>.
\<close>

fun after_token :: "event \<Rightarrow> nat \<Rightarrow> nat" where
  "after_token (EndTag tag) pos = pos + length tag + 3"
| "after_token ev pos = pos + 1"

fun in_order :: "string \<Rightarrow> nat \<Rightarrow> tokens \<Rightarrow> bool" where
  "in_order d lo [] = (lo \<le> length d)"
| "in_order d lo ((ev, gp) # evs) =
     (lo \<le> absolute d gp \<and> in_order d (after_token ev (absolute d gp)) evs)"

text \<open>
  \<open>adjacent d (Some 0)\<close>: the first token starts at offset 0, and a closing tag is
  written exactly as \<^verbatim>\<open></name>\<close> with the next token right behind it, or with the end of
  the text behind it when it is the last token. \<open>due_after\<close> is the offset a token
  requires of its successor, \<open>meets\<close> compares a required offset with an actual one.
\<close>

fun due_after :: "event \<Rightarrow> nat \<Rightarrow> nat option" where
  "due_after (EndTag tag) pos = Some (pos + length tag + 3)"
| "due_after ev pos = None"

fun meets :: "nat option \<Rightarrow> nat \<Rightarrow> bool" where
  "meets None pos = True"
| "meets (Some e) pos = (pos = e)"

fun adjacent :: "string \<Rightarrow> nat option \<Rightarrow> tokens \<Rightarrow> bool" where
  "adjacent d req [] = meets req (length d)"
| "adjacent d req ((ev, gp) # evs) =
     (meets req (absolute d gp) \<and> adjacent d (due_after ev (absolute d gp)) evs)"

text \<open>
  The events that leave the parser as it is: an \<^verbatim>\<open>img\<close> start tag and the callbacks the
  class does not override. The parser is \<open>idle\<close> when it is outside every region: no tag
  is open, no markdown run is open, no self-closing tag is pending. \<open>no_stray self evs\<close>
  says that in the run of \<open>evs\<close> from \<open>self\<close> no such event arrives while the parser is
  idle.
\<close>

fun ignored :: "event \<Rightarrow> bool" where
  "ignored (StartTag tag ats) = (tag = ''img'')"
| "ignored Other = True"
| "ignored ev = False"

definition idle :: "parser \<Rightarrow> bool" where
  "idle self = (opentags self = [] \<and> \<not> datag self \<and> \<not> setag self)"

fun no_stray :: "parser \<Rightarrow> tokens \<Rightarrow> bool" where
  "no_stray self [] = True"
| "no_stray self (ev # evs) =
     (\<not> (ignored (fst ev) \<and> idle self)
      \<and> (case handle self ev of Inl e \<Rightarrow> True | Inr self' \<Rightarrow> no_stray self' evs))"

subsection \<open>Span lists as the specification describes them\<close>

text \<open>
  \<open>separated d lo sps\<close>: every entry is a span \<^verbatim>\<open>[kind, start, end, text]\<close> of kind
  markdown or html with \<open>start < end\<close> and \<open>text = d[start:end]\<close>, the first starts at
  or after \<open>lo\<close>, each one at or after the end of the one before, and the last ends within
  \<open>d\<close>. \<open>covers d lo sps\<close> is the partition of the specification: the same with each
  span starting exactly where the one before ends, the first at \<open>lo\<close>, the last ending
  at the length of \<open>d\<close>.
\<close>

fun separated :: "string \<Rightarrow> nat \<Rightarrow> span list \<Rightarrow> bool" where
  "separated d lo [] = (lo \<le> length d)"
| "separated d lo ([S kind, I s, I e, S t] # sps) =
     ((kind = ''markdown'' \<or> kind = ''html'') \<and> lo \<le> s \<and> s < e
      \<and> t = take (e - s) (drop s d) \<and> separated d e sps)"
| "separated d lo (sp # sps) = False"

fun covers :: "string \<Rightarrow> nat \<Rightarrow> span list \<Rightarrow> bool" where
  "covers d lo [] = (lo = length d)"
| "covers d lo ([S kind, I s, I e, S t] # sps) =
     ((kind = ''markdown'' \<or> kind = ''html'') \<and> s = lo \<and> s < e
      \<and> t = take (e - s) (drop s d) \<and> covers d e sps)"
| "covers d lo (sp # sps) = False"

fun span_text :: "span \<Rightarrow> string" where
  "span_text [kind, s, e, S t] = t"
| "span_text sp = []"

subsection \<open>The entries of splitlist during a run\<close>

text \<open>
  While the tokenizer runs, an entry of \<^verbatim>\<open>splitlist\<close> is a region that is still open,
  \<^verbatim>\<open>[kind, start]\<close>, or one that has been closed, \<^verbatim>\<open>[kind, start, end]\<close>; the loop of
  \<^verbatim>\<open>feed\<close> then appends the text.
\<close>

datatype region = Open string nat | Closed string nat nat

fun entry :: "region \<Rightarrow> span" where
  "entry (Open k s) = [S k, I s]"
| "entry (Closed k s e) = [S k, I s, I e]"

fun with_text :: "string \<Rightarrow> region \<Rightarrow> span" where
  "with_text d (Open k s) = [S k, I s]"
| "with_text d (Closed k s e) = [S k, I s, I e, S (take (e - s) (drop s d))]"

fun start :: "region \<Rightarrow> nat" where
  "start (Open k s) = s"
| "start (Closed k s e) = s"

text \<open>The end of a closed region; an open one reaches at least one character far.\<close>

fun upper :: "region \<Rightarrow> nat" where
  "upper (Open k s) = s + 1"
| "upper (Closed k s e) = e"

fun kind_of :: "region \<Rightarrow> string" where
  "kind_of (Open k s) = k"
| "kind_of (Closed k s e) = k"

fun is_open :: "region \<Rightarrow> bool" where
  "is_open (Open k s) = True"
| "is_open (Closed k s e) = False"

text \<open>
  \<open>ascending lo rs\<close>: the regions are not empty and each starts at or after the end of
  the one before; \<open>frontier lo rs\<close> is the end of the last one.
\<close>

fun ascending :: "nat \<Rightarrow> region list \<Rightarrow> bool" where
  "ascending lo [] = True"
| "ascending lo (r # rs) = (lo \<le> start r \<and> start r < upper r \<and> ascending (upper r) rs)"

fun frontier :: "nat \<Rightarrow> region list \<Rightarrow> nat" where
  "frontier lo [] = lo"
| "frontier lo (r # rs) = frontier (upper r) rs"

text \<open>
  \<open>tiled req rs\<close>: each region that follows a closed one starts where that one ends (the
  first at \<open>req\<close>); \<open>due req rs\<close> is the offset at which the next region has to start,
  if the last one is closed.
\<close>

fun due :: "nat option \<Rightarrow> region list \<Rightarrow> nat option" where
  "due req [] = req"
| "due req (r # rs) = due (if is_open r then None else Some (upper r)) rs"

fun tiled :: "nat option \<Rightarrow> region list \<Rightarrow> bool" where
  "tiled req [] = True"
| "tiled req (r # rs) =
     (meets req (start r) \<and> tiled (if is_open r then None else Some (upper r)) rs)"

text \<open>
  The invariant of a run that starts in a new interpreter: \<^verbatim>\<open>splitlist\<close> is a list of
  regions in ascending order that end at or before \<open>lo\<close>, the least offset of the next
  token; the flags are off while a tag is open; and the last region is open exactly when
  the parser is not idle. \<open>tiles\<close> adds what holds when the tokens are adjacent and none
  is stray.
\<close>

definition tracks :: "string \<Rightarrow> nat \<Rightarrow> parser \<Rightarrow> region list \<Rightarrow> bool" where
  "tracks d lo self rs \<longleftrightarrow>
     data self = d \<and> splitlist self = map entry rs \<and> ascending 0 rs \<and> frontier 0 rs \<le> lo
     \<and> (\<forall>r\<in>set rs. kind_of r = ''markdown'' \<or> kind_of r = ''html'')
     \<and> (opentags self \<noteq> [] \<longrightarrow> \<not> datag self \<and> \<not> setag self)
     \<and> (idle self \<longleftrightarrow> (rs = [] \<or> \<not> is_open (last rs)))"

definition tiles :: "nat option \<Rightarrow> parser \<Rightarrow> region list \<Rightarrow> bool" where
  "tiles req self rs \<longleftrightarrow> tiled (Some 0) rs \<and> (idle self \<longrightarrow> req = due (Some 0) rs)"

section \<open>Properties\<close>

subsection \<open>Auxiliary facts\<close>

lemma HTMLParser_feed_append:
  "HTMLParser_feed self (pre @ post) =
     (case HTMLParser_feed self pre of Inl e \<Rightarrow> Inl e | Inr self' \<Rightarrow> HTMLParser_feed self' post)"
  by (induction pre arbitrary: self) (auto split: sum.splits)


lemma combine_concat:
  "\<forall>sp\<in>set sps. carries_text sp \<Longrightarrow>
     combine m h sps out = Inr (out @ concat (map (span_conversion m h) sps))"
proof (induction sps arbitrary: out)
  case Nil
  then show ?case by simp
next
  case (Cons sp sps)
  then have ct: "carries_text sp" and rest: "\<forall>sp\<in>set sps. carries_text sp" by simp_all
  show ?case
    using ct Cons.IH [OF rest]
    by (auto simp: carries_text_def span_conversion_def split: sum.splits field.splits if_splits)
qed

subsection \<open>The run of the handlers in a new interpreter\<close>

lemma get_offset_absolute: "get_offset self gp = absolute (data self) gp"
  by (simp add: get_offset_def absolute_def)

lemma ascending_snoc: "ascending lo (rs @ [r]) = (ascending lo rs \<and> frontier lo rs \<le> start r \<and> start r < upper r)"
  by (induction rs arbitrary: lo) auto

lemma frontier_snoc: "frontier lo (rs @ [r]) = upper r"
  by (induction rs arbitrary: lo) auto

lemma due_snoc: "due req (rs @ [r]) = (if is_open r then None else Some (upper r))"
  by (induction rs arbitrary: req) auto

lemma tiled_snoc: "tiled req (rs @ [r]) = (tiled req rs \<and> meets (due req rs) (start r))"
  by (induction rs arbitrary: req) auto

lemma ascending_snoc2:
  "ascending lo (rs @ [a, b]) =
     (ascending lo rs \<and> frontier lo rs \<le> start a \<and> start a < upper a
      \<and> upper a \<le> start b \<and> start b < upper b)"
  using ascending_snoc [of lo "rs @ [a]" b] by (simp add: ascending_snoc frontier_snoc)

lemma frontier_snoc2: "frontier lo (rs @ [a, b]) = upper b"
  using frontier_snoc [of lo "rs @ [a]" b] by simp

lemma due_snoc2: "due req (rs @ [a, b]) = (if is_open b then None else Some (upper b))"
  using due_snoc [of req "rs @ [a]" b] by simp

lemma tiled_snoc2:
  "tiled req (rs @ [a, b]) =
     (tiled req rs \<and> meets (due req rs) (start a)
      \<and> meets (if is_open a then None else Some (upper a)) (start b))"
  using tiled_snoc [of req "rs @ [a]" b] by (simp add: tiled_snoc due_snoc)

lemma append_at_last:
  "append_at (xs @ [x]) (- 1) y = Inr (xs @ [x @ [y]])"
  by (simp add: append_at_def norm_index_def)

lemma getitem_last: "getitem (xs @ [x]) (- 1) = Inr x"
  by (simp add: getitem_def norm_index_def)

lemma getitem_Nil: "getitem [] i = Inl IndexError"
  by (simp add: getitem_def norm_index_def)

lemma loop_done: "loop d sl (length sl) np = Inr sl"
  by (simp add: loop.simps)

lemma loop_body_closed:
  "s \<noteq> e \<Longrightarrow>
   loop_body d (done @ [S k, I s, I e] # rest) (length done) 0
     = Inr (done @ [S k, I s, I e, S (take (e - s) (drop s d))] # rest, 0)"
  by (simp add: loop_body_def getitem_def norm_index_def append_at_def nth_append)

lemma loop_body_open:
  "loop_body d (done @ [S k, I s] # rest) (length done) 0 = Inl IndexError"
  by (simp add: loop_body_def getitem_def norm_index_def append_at_def nth_append)

lemma loop_entries:
  "\<forall>r\<in>set rs. start r < upper r \<Longrightarrow>
   loop d (done @ map entry rs) (length done) 0 =
     (if \<exists>r\<in>set rs. is_open r then Inl IndexError else Inr (done @ map (with_text d) rs))"
proof (induction rs arbitrary: "done")
  case Nil
  then show ?case using loop_done [of d "done" 0] by simp
next
  case (Cons r rs)
  show ?case
  proof (cases r)
    case (Open k s)
    then show ?thesis
      by (simp add: loop.simps [of d "done @ [S k, I s] # map entry rs"] loop_body_open)
  next
    case (Closed k s e)
    with Cons.prems have ne: "s \<noteq> e" by simp
    have rest: "\<forall>r\<in>set rs. start r < upper r" using Cons.prems by simp
    have "loop d (done @ map entry (r # rs)) (length done) 0
        = loop d ((done @ [with_text d r]) @ map entry rs) (length (done @ [with_text d r])) 0"
      using ne Closed
      by (simp add: loop.simps [of d "done @ [S k, I s, I e] # map entry rs"] loop_body_closed)
    also have "\<dots> = (if \<exists>r\<in>set rs. is_open r then Inl IndexError
                     else Inr ((done @ [with_text d r]) @ map (with_text d) rs))"
      using Cons.IH [OF rest] by blast
    finally show ?thesis using Closed by simp
  qed
qed

lemma tracks_busy:
  assumes "tracks d lo self rs" and "\<not> idle self"
  obtains rs0 k s where "rs = rs0 @ [Open k s]"
proof -
  from assms have ne: "rs \<noteq> []" and op: "is_open (last rs)" by (auto simp: tracks_def)
  from op obtain k s where "last rs = Open k s" by (cases "last rs") auto
  with ne have "rs = butlast rs @ [Open k s]" by (metis append_butlast_last_id)
  then show ?thesis using that by blast
qed

lemma handle_ignored:
  assumes "tracks d lo self rs" and "lo \<le> p"
  shows "tracks d (p + 1) self rs
     \<and> (tiles req self rs \<and> \<not> idle self \<longrightarrow> tiles req' self rs)"
  using assms by (auto simp: tracks_def tiles_def)

lemma handle_data_tracks:
  assumes i: "tracks d lo self rs" and lo: "lo \<le> absolute d gp"
    and h: "handle_data self gp txt = Inr self'"
  shows "\<exists>rs'. tracks d (absolute d gp + 1) self' rs'
     \<and> (tiles req self rs \<and> meets req (absolute d gp) \<longrightarrow> tiles None self' rs')"
proof (cases "opentags self = [] \<and> \<not> datag self")
  case False
  then have same: "self' = self" and busy: "\<not> idle self"
    using h by (auto simp: handle_data_def idle_def)
  show ?thesis
    using handle_ignored [OF i lo, of req None] busy unfolding same by blast
next
  case True
  note td = True
  show ?thesis
  proof (cases "setag self")
    case False
    with td have idl: "idle self" by (simp add: idle_def)
    have self': "self' = self\<lparr>splitlist := splitlist self @ [[S ''markdown'', I (absolute d gp)]],
                               datag := True\<rparr>"
      using h td False i by (simp add: handle_data_def get_offset_absolute tracks_def)
    have "tracks d (absolute d gp + 1) self' (rs @ [Open ''markdown'' (absolute d gp)])"
      using i lo idl unfolding self' by (auto simp: tracks_def ascending_snoc frontier_snoc idle_def)
    moreover have "tiles req self rs \<and> meets req (absolute d gp)
        \<longrightarrow> tiles None self' (rs @ [Open ''markdown'' (absolute d gp)])"
      using idl unfolding self' by (auto simp: tiles_def tiled_snoc idle_def)
    ultimately show ?thesis by blast
  next
    case True
    then have busy: "\<not> idle self" by (simp add: idle_def)
    from tracks_busy [OF i busy] obtain rs0 k s where rs: "rs = rs0 @ [Open k s]" by blast
    have self': "self' = self\<lparr>splitlist := map entry rs0 @ [[S k, I s, I (absolute d gp)],
                                     [S ''markdown'', I (absolute d gp)]],
                               setag := False, datag := True\<rparr>"
      using h td True i
      by (auto simp: handle_data_def get_offset_absolute tracks_def rs append_at_last Let_def)
    let ?rs' = "rs0 @ [Closed k s (absolute d gp), Open ''markdown'' (absolute d gp)]"
    have "tracks d (absolute d gp + 1) self' ?rs'"
      using i lo td True unfolding self' rs
      by (auto simp: tracks_def ascending_snoc frontier_snoc ascending_snoc2 frontier_snoc2 idle_def)
    moreover have "tiles req self rs \<longrightarrow> tiles None self' ?rs'"
      unfolding self' rs
      by (auto simp: tiles_def tiled_snoc due_snoc tiled_snoc2 due_snoc2 idle_def)
    ultimately show ?thesis by blast
  qed
qed

lemma handle_startendtag_tracks:
  assumes i: "tracks d lo self rs" and lo: "lo \<le> absolute d gp"
    and h: "handle_startendtag self gp tag ats = Inr self'"
  shows "\<exists>rs'. tracks d (absolute d gp + 1) self' rs'
     \<and> (tiles req self rs \<and> meets req (absolute d gp) \<longrightarrow> tiles None self' rs')"
proof (cases "opentags self = []")
  case False
  then have same: "self' = self" and busy: "\<not> idle self"
    using h by (auto simp: handle_startendtag_def idle_def)
  show ?thesis
    using handle_ignored [OF i lo, of req None] busy unfolding same by blast
next
  case True
  note depth = True
  show ?thesis
  proof (cases "datag self")
    case False
    have self': "self' = self\<lparr>splitlist := splitlist self @ [[S ''html'', I (absolute d gp)]],
                               setag := True\<rparr>"
      using h depth False i by (simp add: handle_startendtag_def get_offset_absolute tracks_def)
    let ?rs' = "rs @ [Open ''html'' (absolute d gp)]"
    have "tracks d (absolute d gp + 1) self' ?rs'"
      using i lo depth False unfolding self'
      by (auto simp: tracks_def ascending_snoc frontier_snoc idle_def)
    moreover have "tiles req self rs \<and> meets req (absolute d gp) \<longrightarrow> tiles None self' ?rs'"
    proof (cases "idle self")
      case True
      then show ?thesis unfolding self' by (auto simp: tiles_def tiled_snoc idle_def)
    next
      case False
      from tracks_busy [OF i False] obtain rs0 k s where rs: "rs = rs0 @ [Open k s]" by blast
      show ?thesis unfolding self' rs
        by (auto simp: tiles_def tiled_snoc due_snoc tiled_snoc2 due_snoc2 idle_def)
    qed
    ultimately show ?thesis by blast
  next
    case True
    then have busy: "\<not> idle self" by (simp add: idle_def)
    from tracks_busy [OF i busy] obtain rs0 k s where rs: "rs = rs0 @ [Open k s]" by blast
    have self': "self' = self\<lparr>splitlist := map entry rs0 @ [[S k, I s, I (absolute d gp)],
                                     [S ''html'', I (absolute d gp)]],
                               datag := False, setag := True\<rparr>"
      using h depth True i
      by (auto simp: handle_startendtag_def get_offset_absolute tracks_def rs append_at_last Let_def)
    let ?rs' = "rs0 @ [Closed k s (absolute d gp), Open ''html'' (absolute d gp)]"
    have "tracks d (absolute d gp + 1) self' ?rs'"
      using i lo depth True unfolding self' rs
      by (auto simp: tracks_def ascending_snoc frontier_snoc ascending_snoc2 frontier_snoc2 idle_def)
    moreover have "tiles req self rs \<longrightarrow> tiles None self' ?rs'"
      unfolding self' rs
      by (auto simp: tiles_def tiled_snoc due_snoc tiled_snoc2 due_snoc2 idle_def)
    ultimately show ?thesis by blast
  qed
qed

lemma handle_starttag_tracks:
  assumes i: "tracks d lo self rs" and lo: "lo \<le> absolute d gp"
    and h: "handle_starttag self gp tag ats = Inr self'"
  shows "\<exists>rs'. tracks d (absolute d gp + 1) self' rs'
     \<and> (tiles req self rs \<and> meets req (absolute d gp) \<and> \<not> (tag = ''img'' \<and> idle self)
          \<longrightarrow> tiles None self' rs')"
proof (cases "tag = ''img''")
  case True
  then have same: "self' = self" using h by (simp add: handle_starttag_def)
  show ?thesis
    using handle_ignored [OF i lo, of req None] True unfolding same by blast
next
  case False
  note tag = False
  show ?thesis
  proof (cases "opentags self = []")
    case False
    then have busy: "\<not> idle self" by (simp add: idle_def)
    have self': "self' = self\<lparr>opentags := opentags self @ [tag]\<rparr>"
      using h tag False by (simp add: handle_starttag_def)
    have "tracks d (absolute d gp + 1) self' rs"
      using i lo False unfolding self' by (auto simp: tracks_def idle_def)
    moreover have "tiles req self rs \<longrightarrow> tiles None self' rs"
      using False unfolding self' by (auto simp: tiles_def idle_def)
    ultimately show ?thesis by blast
  next
    case True
    note depth = True
    show ?thesis
    proof (cases "datag self \<or> setag self")
      case False
      with depth have idl: "idle self" by (simp add: idle_def)
      have self': "self' = self\<lparr>splitlist := splitlist self @ [[S ''html'', I (absolute d gp)]],
                                 opentags := opentags self @ [tag]\<rparr>"
        using h tag depth False i by (simp add: handle_starttag_def get_offset_absolute tracks_def)
      let ?rs' = "rs @ [Open ''html'' (absolute d gp)]"
      have "tracks d (absolute d gp + 1) self' ?rs'"
        using i lo depth False unfolding self'
        by (auto simp: tracks_def ascending_snoc frontier_snoc idle_def)
      moreover have "tiles req self rs \<and> meets req (absolute d gp) \<longrightarrow> tiles None self' ?rs'"
        using idl unfolding self' by (auto simp: tiles_def tiled_snoc idle_def)
      ultimately show ?thesis by blast
    next
      case True
      then have busy: "\<not> idle self" by (auto simp: idle_def)
      from tracks_busy [OF i busy] obtain rs0 k s where rs: "rs = rs0 @ [Open k s]" by blast
      have self': "self' = self\<lparr>splitlist := map entry rs0 @ [[S k, I s, I (absolute d gp)],
                                       [S ''html'', I (absolute d gp)]],
                                 datag := False, setag := False,
                                 opentags := opentags self @ [tag]\<rparr>"
        using h tag depth True i
        by (auto simp: handle_starttag_def get_offset_absolute tracks_def rs append_at_last Let_def)
      let ?rs' = "rs0 @ [Closed k s (absolute d gp), Open ''html'' (absolute d gp)]"
      have "tracks d (absolute d gp + 1) self' ?rs'"
        using i lo depth True unfolding self' rs
        by (auto simp: tracks_def ascending_snoc frontier_snoc ascending_snoc2 frontier_snoc2 idle_def)
      moreover have "tiles req self rs \<longrightarrow> tiles None self' ?rs'"
        unfolding self' rs
        by (auto simp: tiles_def tiled_snoc due_snoc tiled_snoc2 due_snoc2 idle_def)
      ultimately show ?thesis by blast
    qed
  qed
qed

lemma handle_endtag_tracks:
  assumes i: "tracks d lo self rs" and lo: "lo \<le> absolute d gp"
    and h: "handle_endtag self gp tag = Inr self'"
  shows "\<exists>rs'. tracks d (absolute d gp + length tag + 3) self' rs'
     \<and> (tiles req self rs \<longrightarrow> tiles (Some (absolute d gp + length tag + 3)) self' rs')"
proof -
  from h have depth: "opentags self \<noteq> []"
    by (auto simp: handle_endtag_def pop_last_def split: if_splits)
  then have busy: "\<not> idle self" by (simp add: idle_def)
  from tracks_busy [OF i busy] obtain rs0 k s where rs: "rs = rs0 @ [Open k s]" by blast
  show ?thesis
  proof (cases "butlast (opentags self) = []")
    case False
    then have "\<not> length (opentags self) \<le> Suc 0"
      by (cases "opentags self" rule: rev_cases) auto
    then have self': "self' = self\<lparr>opentags := butlast (opentags self)\<rparr>"
      using h depth by (simp add: handle_endtag_def pop_last_def)
    have "tracks d (absolute d gp + length tag + 3) self' rs"
      using i lo False depth unfolding self' by (auto simp: tracks_def idle_def)
    moreover have "tiles req self rs
        \<longrightarrow> tiles (Some (absolute d gp + length tag + 3)) self' rs"
      using False unfolding self' by (auto simp: tiles_def idle_def)
    ultimately show ?thesis by blast
  next
    case True
    then have "length (opentags self) \<le> Suc 0"
      by (cases "opentags self" rule: rev_cases) auto
    then have self': "self' = self\<lparr>opentags := [],
        splitlist := map entry rs0 @ [[S k, I s, I (absolute d gp + length tag + 3)]]\<rparr>"
      using h depth True i
      by (auto simp: handle_endtag_def pop_last_def get_offset_absolute tracks_def rs
          append_at_last Let_def)
    let ?rs' = "rs0 @ [Closed k s (absolute d gp + length tag + 3)]"
    have "tracks d (absolute d gp + length tag + 3) self' ?rs'"
      using i lo depth unfolding self' rs
      by (auto simp: tracks_def ascending_snoc frontier_snoc idle_def)
    moreover have "tiles req self rs
        \<longrightarrow> tiles (Some (absolute d gp + length tag + 3)) self' ?rs'"
      unfolding self' rs
      by (auto simp: tiles_def tiled_snoc due_snoc idle_def)
    ultimately show ?thesis by blast
  qed
qed

lemma handle_tracks:
  assumes i: "tracks d lo self rs" and lo: "lo \<le> absolute d gp"
    and h: "handle self (ev, gp) = Inr self'"
  shows "\<exists>rs'. tracks d (after_token ev (absolute d gp)) self' rs'
     \<and> (tiles req self rs \<and> meets req (absolute d gp) \<and> \<not> (ignored ev \<and> idle self)
          \<longrightarrow> tiles (due_after ev (absolute d gp)) self' rs')"
proof (cases ev)
  case (StartTag tag ats)
  then show ?thesis using handle_starttag_tracks [OF i lo, of tag ats self' req] h by auto
next
  case (EndTag tag)
  then show ?thesis using handle_endtag_tracks [OF i lo, of tag self' req] h by auto
next
  case (StartEndTag tag ats)
  then show ?thesis using handle_startendtag_tracks [OF i lo, of tag ats self' req] h by auto
next
  case (Data run)
  then show ?thesis using handle_data_tracks [OF i lo, of run self' req] h by auto
next
  case Other
  then show ?thesis using handle_ignored [OF i lo, of req None] h by auto
qed

lemma run_tracks:
  assumes "tracks d lo self rs" and "in_order d lo evs" and "HTMLParser_feed self evs = Inr self'"
  shows "\<exists>rs' lo'. tracks d lo' self' rs' \<and> lo' \<le> length d
     \<and> (tiles req self rs \<and> adjacent d req evs \<and> no_stray self evs
          \<longrightarrow> (\<exists>req'. tiles req' self' rs' \<and> meets req' (length d)))"
  using assms
proof (induction evs arbitrary: self rs lo req)
  case Nil
  then show ?case by auto
next
  case (Cons tok evs)
  obtain ev gp where tok: "tok = (ev, gp)" by (cases tok)
  from Cons.prems(3) obtain s1 where
    h: "handle self (ev, gp) = Inr s1" and run: "HTMLParser_feed s1 evs = Inr self'"
    by (auto simp: tok split: sum.splits)
  from Cons.prems(2) have lo: "lo \<le> absolute d gp"
    and ord: "in_order d (after_token ev (absolute d gp)) evs"
    by (simp_all add: tok)
  from handle_tracks [OF Cons.prems(1) lo h, of req] obtain rs1 where
    i1: "tracks d (after_token ev (absolute d gp)) s1 rs1" and
    b1: "tiles req self rs \<and> meets req (absolute d gp) \<and> \<not> (ignored ev \<and> idle self)
           \<longrightarrow> tiles (due_after ev (absolute d gp)) s1 rs1"
    by blast
  from Cons.IH [OF i1 ord run, of "due_after ev (absolute d gp)"] obtain rs' lo' where
    i': "tracks d lo' self' rs'" and le: "lo' \<le> length d" and
    b': "tiles (due_after ev (absolute d gp)) s1 rs1
           \<and> adjacent d (due_after ev (absolute d gp)) evs \<and> no_stray s1 evs
         \<longrightarrow> (\<exists>req'. tiles req' self' rs' \<and> meets req' (length d))"
    by blast
  have "tiles req self rs \<and> adjacent d req (tok # evs) \<and> no_stray self (tok # evs)
         \<longrightarrow> (\<exists>req'. tiles req' self' rs' \<and> meets req' (length d))"
    using b1 b' h by (auto simp: tok)
  with i' le show ?case by blast
qed

lemma tracks_initial: "tracks d 0 (MarkdownSplitParser class_initial\<lparr>data := d\<rparr>) []"
  by (simp add: tracks_def MarkdownSplitParser_def class_initial_def idle_def)

lemma tiles_initial: "tiles (Some 0) (MarkdownSplitParser class_initial\<lparr>data := d\<rparr>) []"
  by (simp add: tiles_def)

lemma ascending_nonempty: "ascending lo rs \<Longrightarrow> \<forall>r\<in>set rs. start r < upper r"
  by (induction rs arbitrary: lo) auto

lemma separated_regions:
  "ascending lo rs \<Longrightarrow> \<forall>r\<in>set rs. \<not> is_open r
   \<Longrightarrow> \<forall>r\<in>set rs. kind_of r = ''markdown'' \<or> kind_of r = ''html''
   \<Longrightarrow> frontier lo rs \<le> length d \<Longrightarrow> separated d lo (map (with_text d) rs)"
proof (induction rs arbitrary: lo)
  case Nil
  then show ?case by simp
next
  case (Cons r rs)
  then show ?case by (cases r) auto
qed

lemma covers_regions:
  "ascending lo rs \<Longrightarrow> \<forall>r\<in>set rs. \<not> is_open r
   \<Longrightarrow> \<forall>r\<in>set rs. kind_of r = ''markdown'' \<or> kind_of r = ''html''
   \<Longrightarrow> tiled (Some lo) rs \<Longrightarrow> due (Some lo) rs = Some (length d)
   \<Longrightarrow> covers d lo (map (with_text d) rs)"
proof (induction rs arbitrary: lo)
  case Nil
  then show ?case by simp
next
  case (Cons r rs)
  then show ?case by (cases r) auto
qed

lemma covers_concat: "covers d lo sps \<Longrightarrow> concat (map span_text sps) = drop lo d"
proof (induction d lo sps rule: covers.induct)
  case (1 d lo)
  then show ?case by simp
next
  case (2 d lo kind s e t sps)
  then have "s \<le> e" and t: "t = take (e - s) (drop s d)" and rest: "concat (map span_text sps) = drop e d"
    and lo: "s = lo"
    by simp_all
  have "take (e - s) (drop s d) @ drop (e - s) (drop s d) = drop s d"
    by (rule append_take_drop_id)
  moreover have "drop (e - s) (drop s d) = drop e d" using \<open>s \<le> e\<close> by simp
  ultimately show ?case using t rest lo by simp
qed simp_all

lemma feed_regions:
  assumes ok: "split_fresh d evs = Inr spans" and ord: "in_order d 0 evs"
  shows "\<exists>rs. spans = map (with_text d) rs \<and> rs \<noteq> [] \<and> ascending 0 rs
     \<and> (\<forall>r\<in>set rs. \<not> is_open r)
     \<and> (\<forall>r\<in>set rs. kind_of r = ''markdown'' \<or> kind_of r = ''html'')
     \<and> frontier 0 rs \<le> length d
     \<and> (adjacent d (Some 0) evs \<and> no_stray (MarkdownSplitParser class_initial\<lparr>data := d\<rparr>) evs
          \<longrightarrow> tiled (Some 0) rs \<and> due (Some 0) rs = Some (length d))"
proof -
  let ?p0 = "MarkdownSplitParser class_initial\<lparr>data := d\<rparr>"
  from ok obtain p where fd: "feed (MarkdownSplitParser class_initial) d evs = Inr p"
    and spans: "spans = splitlist p"
    by (auto simp: split_fresh_def split: sum.splits)
  from fd obtain self1 where run: "HTMLParser_feed ?p0 evs = Inr self1"
    by (auto simp: feed_def split: sum.splits)
  from run_tracks [OF tracks_initial ord run, of "Some 0"] obtain rs lo where
    i: "tracks d lo self1 rs" and le: "lo \<le> length d" and
    b: "adjacent d (Some 0) evs \<and> no_stray ?p0 evs
          \<longrightarrow> (\<exists>req'. tiles req' self1 rs \<and> meets req' (length d))"
    using tiles_initial by blast
  from i have dat: "data self1 = d" and sl: "splitlist self1 = map entry rs" by (auto simp: tracks_def)
  have ne: "rs \<noteq> []"
    using fd run sl by (auto simp: feed_def getitem_Nil split: sum.splits)
  then obtain rs0 r where rs: "rs = rs0 @ [r]" by (metis append_butlast_last_id)
  define rsF where "rsF = rs0 @ [case r of Open k s \<Rightarrow> Closed k s (length d) | Closed k s e \<Rightarrow> r]"
  have closure: "(if length (entry r) = 2
                  then append_at (splitlist self1) (- 1) (I (length (data self1)))
                  else Inr (splitlist self1)) = Inr (map entry rsF)"
    by (cases r) (simp_all add: sl rs dat rsF_def append_at_last)
  from fd run have lp: "loop d (map entry rsF) 0 0 = Inr spans"
    using closure by (auto simp: feed_def sl rs getitem_last dat spans split: sum.splits)
  have chainF: "ascending 0 rsF" and topF: "frontier 0 rsF \<le> length d"
    and kindsF: "\<forall>r\<in>set rsF. kind_of r = ''markdown'' \<or> kind_of r = ''html''"
    using i le by (cases r; auto simp: tracks_def rs rsF_def ascending_snoc frontier_snoc)+
  have "loop d ([] @ map entry rsF) (length ([] :: span list)) 0 =
     (if \<exists>r\<in>set rsF. is_open r then Inl IndexError else Inr ([] @ map (with_text d) rsF))"
    by (rule loop_entries) (rule ascending_nonempty [OF chainF])
  with lp have closedF: "\<forall>r\<in>set rsF. \<not> is_open r" and res: "spans = map (with_text d) rsF"
    by (auto split: if_splits)
  have "tiled (Some 0) rsF \<and> due (Some 0) rsF = Some (length d)"
    if "adjacent d (Some 0) evs \<and> no_stray ?p0 evs"
  proof -
    from b that obtain req' where ib: "tiles req' self1 rs" and m: "meets req' (length d)" by blast
    show ?thesis
    proof (cases r)
      case (Open k s)
      then show ?thesis using ib by (auto simp: tiles_def rs rsF_def tiled_snoc due_snoc)
    next
      case (Closed k s e)
      then have "idle self1" using i by (auto simp: tracks_def rs)
      then show ?thesis using ib m Closed by (auto simp: tiles_def rs rsF_def due_snoc)
    qed
  qed
  moreover have "rsF \<noteq> []" by (simp add: rsF_def)
  ultimately show ?thesis using res chainF closedF kindsF topF by blast
qed

subsection \<open>The spans and the source\<close>

text \<open>
  Claim C1 says that for every source string the spans are a partition of the string:
  the first starts at 0, each starts where the one before ends, the last ends at the
  length of the string. The parser leaves an \<^verbatim>\<open>img\<close> start tag out on purpose; when it
  stands before the first text, the text it occupies belongs to no span.
\<close>

theorem img_before_text_counterexample:
  "split_fresh ''<img>abc'' [(StartTag ''img'' [], (1, 0)), (Data ''abc'', (1, 5))]
     = Inr [[S ''markdown'', I 5, I 8, S ''abc'']]
   \<and> \<not> covers ''<img>abc'' 0 [[S ''markdown'', I 5, I 8, S ''abc'']]
   \<and> concat (map span_text [[S ''markdown'', I 5, I 8, S ''abc'']]) \<noteq> ''<img>abc''"
  by code_simp

text \<open>
  Claim C1, amended. In a new interpreter, when the split succeeds on tokens reported
  in order: there is at least one span, every span is non-empty and carries the text
  \<^verbatim>\<open>source[start:end]\<close>, and the spans follow each other without overlap inside the
  string. They are a partition of the string, and their texts concatenate to it, when in
  addition the first token starts at offset 0, closing tags are written as \<^verbatim>\<open></name>\<close>
  with the next token (or the end of the string) right behind, and no \<^verbatim>\<open>img\<close> start tag
  or unhandled event is reported while the parser is outside every region.
\<close>

theorem spans_partition:
  assumes "split_fresh d evs = Inr spans" and "in_order d 0 evs"
  shows "spans \<noteq> [] \<and> separated d 0 spans
     \<and> (adjacent d (Some 0) evs \<and> no_stray (MarkdownSplitParser class_initial\<lparr>data := d\<rparr>) evs
          \<longrightarrow> covers d 0 spans \<and> concat (map span_text spans) = d)"
proof -
  from feed_regions [OF assms] obtain rs where
    spans: "spans = map (with_text d) rs" and ne: "rs \<noteq> []" and ch: "ascending 0 rs"
    and cl: "\<forall>r\<in>set rs. \<not> is_open r"
    and kd: "\<forall>r\<in>set rs. kind_of r = ''markdown'' \<or> kind_of r = ''html''"
    and tp: "frontier 0 rs \<le> length d"
    and tl: "adjacent d (Some 0) evs \<and> no_stray (MarkdownSplitParser class_initial\<lparr>data := d\<rparr>) evs
          \<longrightarrow> tiled (Some 0) rs \<and> due (Some 0) rs = Some (length d)"
    by blast
  have "separated d 0 spans" unfolding spans by (rule separated_regions [OF ch cl kd tp])
  moreover have "covers d 0 spans \<and> concat (map span_text spans) = d"
    if "adjacent d (Some 0) evs \<and> no_stray (MarkdownSplitParser class_initial\<lparr>data := d\<rparr>) evs"
  proof -
    from tl that have "tiled (Some 0) rs" and "due (Some 0) rs = Some (length d)" by simp_all
    then have "covers d 0 spans" unfolding spans using covers_regions [OF ch cl kd] by blast
    then show ?thesis using covers_concat [of d 0 spans] by simp
  qed
  ultimately show ?thesis using ne spans by simp
qed

theorem spans_partition_witness:
  "split_fresh ''x<img>y<p>z</p>'' tokens_inline_img
     = Inr [[S ''markdown'', I 0, I 7, S ''x<img>y''], [S ''html'', I 7, I 15, S ''<p>z</p>'']]
   \<and> in_order ''x<img>y<p>z</p>'' 0 tokens_inline_img
   \<and> adjacent ''x<img>y<p>z</p>'' (Some 0) tokens_inline_img
   \<and> no_stray (MarkdownSplitParser class_initial\<lparr>data := ''x<img>y<p>z</p>''\<rparr>) tokens_inline_img
   \<and> separated ''x<img>y<p>z</p>'' 0
         [[S ''markdown'', I 0, I 7, S ''x<img>y''], [S ''html'', I 7, I 15, S ''<p>z</p>'']]
   \<and> covers ''x<img>y<p>z</p>'' 0
         [[S ''markdown'', I 0, I 7, S ''x<img>y''], [S ''html'', I 7, I 15, S ''<p>z</p>'']]
   \<and> concat (map span_text
         [[S ''markdown'', I 0, I 7, S ''x<img>y''], [S ''html'', I 7, I 15, S ''<p>z</p>'']])
       = ''x<img>y<p>z</p>''"
proof -
  have split: "split_fresh ''x<img>y<p>z</p>'' tokens_inline_img
     = Inr [[S ''markdown'', I 0, I 7, S ''x<img>y''], [S ''html'', I 7, I 15, S ''<p>z</p>'']]"
    by code_simp
  have order: "in_order ''x<img>y<p>z</p>'' 0 tokens_inline_img"
    by code_simp
  have adj: "adjacent ''x<img>y<p>z</p>'' (Some 0) tokens_inline_img"
    by code_simp
  have stray: "no_stray (MarkdownSplitParser class_initial\<lparr>data := ''x<img>y<p>z</p>''\<rparr>)
                 tokens_inline_img"
    by code_simp
  show ?thesis
    using split order adj stray spans_partition [OF split order]
    by simp
qed

subsection \<open>State shared between calls\<close>

text \<open>
  Claim C2 says that splitting is a pure function of the input string: two invocations
  on the same input give the same span list, and an earlier invocation never affects a
  later one. The code does not have this property. Each call of
  \<^verbatim>\<open>extended_markdown2latex\<close> makes a new parser, but \<^verbatim>\<open>splitlist\<close> is one list owned by
  the class: after converting \<^verbatim>\<open>a\<close>, converting \<^verbatim>\<open>b\<close> returns the conversion of \<^verbatim>\<open>a\<close>
  followed by that of \<^verbatim>\<open>b\<close>, where a first call on \<^verbatim>\<open>b\<close> returns the conversion of
  \<^verbatim>\<open>b\<close> alone.
\<close>

theorem second_call_sees_first_call:
  "extended_markdown2latex m h class_initial ''a'' [(Data ''a'', (1, 0))]
     = Inr (m ''a'', ([], [[S ''markdown'', I 0, I 1, S ''a'']]))
   \<and> extended_markdown2latex m h ([], [[S ''markdown'', I 0, I 1, S ''a'']]) ''b''
        [(Data ''b'', (1, 0))]
     = Inr (m ''a'' @ m ''b'',
            ([], [[S ''markdown'', I 0, I 1, S ''a'', S ''b''],
                  [S ''markdown'', I 0, I 1, S ''b'']]))
   \<and> extended_markdown2latex m h class_initial ''b'' [(Data ''b'', (1, 0))]
     = Inr (m ''b'', ([], [[S ''markdown'', I 0, I 1, S ''b'']]))"
  by (simp add: extended_markdown2latex_def feed_def MarkdownSplitParser_def class_initial_def
      handle_data_def get_offset_def getitem_def norm_index_def append_at_def loop.simps
      loop_body_def pop_at_def class_of_def)

subsection \<open>The post-processing loop\<close>

text \<open>
  Claim C3 says that after the post-processing step of \<^verbatim>\<open>feed\<close> every span with start
  equal to end has been dropped, the others keep their order, and each of them carries
  the text \<^verbatim>\<open>source[start:end]\<close>. The loop pops from the list it enumerates and compares
  the entry the iterator holds with the one at \<open>i - num_pop\<close>; once one entry has been
  popped, the last entry never receives its text. The third conversion of \<^verbatim>\<open>a\<close> in one
  interpreter shows it: the entry left by the first call is popped although it spans
  [0,1), the new span \<^verbatim>\<open>['markdown', 0, 1]\<close> stays without text, and reading
  \<^verbatim>\<open>substring[3]\<close> fails.
\<close>

theorem third_call_loses_text:
  "extended_markdown2latex m h class_initial ''a'' [(Data ''a'', (1, 0))]
     = Inr (m ''a'', ([], [[S ''markdown'', I 0, I 1, S ''a'']]))
   \<and> extended_markdown2latex m h ([], [[S ''markdown'', I 0, I 1, S ''a'']]) ''a''
        [(Data ''a'', (1, 0))]
     = Inr (m ''a'' @ m ''a'',
            ([], [[S ''markdown'', I 0, I 1, S ''a'', S ''a''],
                  [S ''markdown'', I 0, I 1, S ''a'']]))
   \<and> feed (MarkdownSplitParser ([], [[S ''markdown'', I 0, I 1, S ''a'', S ''a''],
                                     [S ''markdown'', I 0, I 1, S ''a'']])) ''a''
        [(Data ''a'', (1, 0))]
     = Inr \<lparr>opentags = [],
            splitlist = [[S ''markdown'', I 0, I 1, S ''a'', S ''a''], [S ''markdown'', I 0, I 1]],
            setag = False, datag = True, data = ''a''\<rparr>
   \<and> extended_markdown2latex m h ([], [[S ''markdown'', I 0, I 1, S ''a'', S ''a''],
                                       [S ''markdown'', I 0, I 1, S ''a'']]) ''a''
        [(Data ''a'', (1, 0))]
     = Inl IndexError"
  by (simp add: extended_markdown2latex_def feed_def MarkdownSplitParser_def class_initial_def
      handle_data_def get_offset_def getitem_def norm_index_def append_at_def loop.simps
      loop_body_def pop_at_def class_of_def)

subsection \<open>An unmatched closing tag\<close>

text \<open>
  Claim C4 says that on an unmatched closing tag at nesting depth 0 the splitter either
  fails with a MalformedMarkupError or recovers with the depth clamped at zero. On
  \<^verbatim>\<open>a</p>\<close> it does neither: the call fails, and not with that error.
\<close>

theorem unmatched_endtag_counterexample:
  "isl (split_fresh ''a</p>'' [(Data ''a'', (1, 0)), (EndTag ''p'', (1, 1))])
   \<and> split_fresh ''a</p>'' [(Data ''a'', (1, 0)), (EndTag ''p'', (1, 1))]
       \<noteq> Inl MalformedMarkupError"
  by code_simp

text \<open>
  Claim C4, amended: whenever the tokenizer reports a closing tag while no tag is open,
  \<^verbatim>\<open>feed\<close> fails with the IndexError of popping the empty list \<^verbatim>\<open>opentags\<close>, whatever
  follows in the input; there is no recovery.
\<close>

theorem unmatched_endtag_raises_IndexError:
  assumes "HTMLParser_feed (self\<lparr>data := d\<rparr>) pre = Inr self'" and "opentags self' = []"
  shows "feed self d (pre @ (EndTag tag, gp) # post) = Inl IndexError"
  using assms by (simp add: feed_def HTMLParser_feed_append handle_endtag_def pop_last_def)

theorem unmatched_endtag_raises_IndexError_witness:
  "HTMLParser_feed (MarkdownSplitParser class_initial\<lparr>data := ''a</p>b''\<rparr>) [(Data ''a'', (1, 0))]
     = Inr \<lparr>opentags = [], splitlist = [[S ''markdown'', I 0]], setag = False, datag = True,
            data = ''a</p>b''\<rparr>
   \<and> opentags \<lparr>opentags = [], splitlist = [[S ''markdown'', I 0]], setag = False, datag = True,
            data = ''a</p>b''\<rparr> = []
   \<and> feed (MarkdownSplitParser class_initial) ''a</p>b''
        ([(Data ''a'', (1, 0))] @ (EndTag ''p'', (1, 1)) # [(Data ''b'', (1, 5))])
     = Inl IndexError"
proof -
  let ?p = "\<lparr>opentags = [], splitlist = [[S ''markdown'', I 0]], setag = False, datag = True,
             data = ''a</p>b''\<rparr>"
  have run: "HTMLParser_feed (MarkdownSplitParser class_initial\<lparr>data := ''a</p>b''\<rparr>)
               [(Data ''a'', (1, 0))] = Inr ?p"
    by (simp add: MarkdownSplitParser_def class_initial_def handle_data_def get_offset_def)
  have depth: "opentags ?p = []" by simp
  show ?thesis
    using run depth
      unmatched_endtag_raises_IndexError [OF run depth, of "''p''" "(1, 1)" "[(Data ''b'', (1, 5))]"]
    by simp
qed

subsection \<open>The examples of the specification\<close>

text \<open>
  Claim C5: splitting \<^verbatim>\<open>before<div>inside</div>after\<close> yields three spans in order, a
  markdown span \<^verbatim>\<open>before\<close> over [0,6), an html span \<^verbatim>\<open><div>inside</div>\<close> over [6,23)
  and a markdown span \<^verbatim>\<open>after\<close> over [23,28).
\<close>

theorem mixed_example:
  "split_fresh ''before<div>inside</div>after'' tokens_mixed =
     Inr [[S ''markdown'', I 0, I 6, S ''before''],
          [S ''html'', I 6, I 23, S ''<div>inside</div>''],
          [S ''markdown'', I 23, I 28, S ''after'']]"
  by code_simp




subsection \<open>The img start tag\<close>


subsection \<open>Text without tags\<close>




subsection \<open>The dispatch\<close>

text \<open>
  Claim C10: the output of \<^verbatim>\<open>extended_markdown2latex\<close> is the concatenation, in span
  order and with nothing between, of the markdown converter's result for each markdown
  span and the html converter's result for each html span; a span of any other kind
  contributes nothing and raises no error. This holds of the loop over any list of spans
  and of the whole function on the list \<^verbatim>\<open>feed\<close> leaves.
\<close>

theorem dispatch_concatenates:
  "((\<forall>sp\<in>set sps. carries_text sp) \<longrightarrow>
      combine m h sps [] = Inr (concat (map (span_conversion m h) sps)))
   \<and> (feed (MarkdownSplitParser c) source evs = Inr p
        \<and> (\<forall>sp\<in>set (splitlist p). carries_text sp) \<longrightarrow>
      extended_markdown2latex m h c source evs =
        Inr (concat (map (span_conversion m h) (splitlist p)), class_of p))"
  by (simp add: combine_concat extended_markdown2latex_def)

theorem dispatch_concatenates_witness:
  "carries_text [S ''markdown'', I 0, I 1, S ''a''] \<and> carries_text [S ''latex'', I 1, I 2]
   \<and> carries_text [S ''html'', I 1, I 6, S ''<br/>'']
   \<and> carries_text [S ''markdown'', I 6, I 7, S ''b'']
   \<and> combine (\<lambda>t. ''M('' @ t @ '')'') (\<lambda>t. ''H('' @ t @ '')'')
        [[S ''markdown'', I 0, I 1, S ''a''], [S ''latex'', I 1, I 2],
         [S ''html'', I 1, I 6, S ''<br/>'']] []
     = Inr ''M(a)H(<br/>)''
   \<and> feed (MarkdownSplitParser class_initial) ''a<br/>b'' tokens_selfclosing
     = Inr \<lparr>opentags = [],
            splitlist = [[S ''markdown'', I 0, I 1, S ''a''], [S ''html'', I 1, I 6, S ''<br/>''],
                         [S ''markdown'', I 6, I 7, S ''b'']],
            setag = False, datag = True, data = ''a<br/>b''\<rparr>
   \<and> extended_markdown2latex (\<lambda>t. ''M('' @ t @ '')'') (\<lambda>t. ''H('' @ t @ '')'') class_initial
        ''a<br/>b'' tokens_selfclosing
     = Inr (''M(a)H(<br/>)M(b)'',
            ([], [[S ''markdown'', I 0, I 1, S ''a''], [S ''html'', I 1, I 6, S ''<br/>''],
                  [S ''markdown'', I 6, I 7, S ''b'']]))"
proof -
  let ?sps = "[[S ''markdown'', I 0, I 1, S ''a''], [S ''latex'', I 1, I 2],
               [S ''html'', I 1, I 6, S ''<br/>'']]"
  let ?p = "\<lparr>opentags = [],
            splitlist = [[S ''markdown'', I 0, I 1, S ''a''], [S ''html'', I 1, I 6, S ''<br/>''],
                         [S ''markdown'', I 6, I 7, S ''b'']],
            setag = False, datag = True, data = ''a<br/>b''\<rparr>"
  have texts: "\<forall>sp\<in>set ?sps. carries_text sp"
    by (simp add: carries_text_def getitem_def norm_index_def)
  have run: "feed (MarkdownSplitParser class_initial) ''a<br/>b'' tokens_selfclosing = Inr ?p"
    by code_simp
  have texts': "\<forall>sp\<in>set (splitlist ?p). carries_text sp"
    by (simp add: carries_text_def getitem_def norm_index_def)
  show ?thesis
    using texts run texts'
      dispatch_concatenates [of ?sps "\<lambda>t. ''M('' @ t @ '')''" "\<lambda>t. ''H('' @ t @ '')''"
        class_initial "''a<br/>b''" tokens_selfclosing ?p]
    by (simp add: span_conversion_def getitem_def norm_index_def class_of_def)
qed

end
